theory Spec2Isabelle
  imports Main
begin

section \<open>Values, errors and the GPIO line provider\<close>

text \<open>
  The driver of \<^verbatim>\<open>src/index.ts\<close> is a class \<^verbatim>\<open>StepperMotor\<close> over the
  \<^verbatim>\<open>node-libgpiod\<close> line provider and the \<^verbatim>\<open>async\<close> control-flow library.
  JavaScript numbers are modelled as \<open>int\<close> (all numbers the driver computes with are
  small integers), and a read past the end of an array yields \<open>Undefined\<close>.
\<close>

datatype jsval = Num int | Undefined

datatype js_error =
    ChipNotFound string
  | InvalidPin nat
  | ResourceBusy nat
  | LineWriteError nat
  | ReleaseError nat
  | TypeError
  | RangeError

text \<open>
  A line handle \<^verbatim>\<open>new Line(chip, pin)\<close> is identified by its chip name and its offset.
  The provider is not part of the driver; its state records what the driver can observe
  of it and what the driver did to it:
  \<^item> \<open>chips\<close>: the chips that exist, each with its number of lines;
  \<^item> \<open>claim\<close>: for a line requested in output mode, the consumer label and the initial
    value of the request;
  \<^item> \<open>trace\<close>: the \<^verbatim>\<open>setValue\<close> calls that were carried out, oldest first;
  \<^item> \<open>attempts\<close>: the number of \<^verbatim>\<open>setValue\<close> calls made so far;
  \<^item> \<open>write_fails\<close>: which \<^verbatim>\<open>setValue\<close> call (counted from 0) throws, for
    whatever reason the provider has;
  \<^item> \<open>release_fails\<close>: the lines whose \<^verbatim>\<open>release\<close> throws.
\<close>

type_synonym line = "string \<times> nat"

record gpio =
  chips :: "(string \<times> nat) list"
  claim :: "line \<Rightarrow> (string \<times> int) option"
  trace :: "(line \<times> jsval) list"
  attempts :: nat
  write_fails :: "nat \<Rightarrow> bool"
  release_fails :: "line \<Rightarrow> bool"

definition new_Chip :: "string \<Rightarrow> gpio \<Rightarrow> js_error + string" where
  "new_Chip name w =
     (case map_of (chips w) name of
        None \<Rightarrow> Inl (ChipNotFound name)
      | Some n \<Rightarrow> Inr name)"

definition new_Line :: "string \<Rightarrow> nat \<Rightarrow> gpio \<Rightarrow> js_error + line" where
  "new_Line c pin w =
     (case map_of (chips w) c of
        None \<Rightarrow> Inl (ChipNotFound c)
      | Some n \<Rightarrow> if pin < n then Inr (c, pin) else Inl (InvalidPin pin))"

definition requestOutputMode ::
  "line \<Rightarrow> int \<Rightarrow> string \<Rightarrow> gpio \<Rightarrow> js_error option \<times> gpio" where
  "requestOutputMode l v consumer w =
     (case claim w l of
        Some held \<Rightarrow> (Some (ResourceBusy (snd l)), w)
      | None \<Rightarrow> (None, w\<lparr>claim := (claim w)(l \<mapsto> (consumer, v))\<rparr>))"

definition setValue :: "line \<Rightarrow> jsval \<Rightarrow> gpio \<Rightarrow> js_error option \<times> gpio" where
  "setValue l v w =
     (if write_fails w (attempts w)
      then (Some (LineWriteError (snd l)), w\<lparr>attempts := Suc (attempts w)\<rparr>)
      else (None, w\<lparr>trace := trace w @ [(l, v)], attempts := Suc (attempts w)\<rparr>))"

definition release :: "line \<Rightarrow> gpio \<Rightarrow> js_error option \<times> gpio" where
  "release l w =
     (if release_fails w l
      then (Some (ReleaseError (snd l)), w)
      else (None, w\<lparr>claim := (claim w)(l := None)\<rparr>))"

text \<open>The value a line was last driven to by \<^verbatim>\<open>setValue\<close>, if any.\<close>

definition last_written :: "gpio \<Rightarrow> line \<Rightarrow> jsval option" where
  "last_written w l = map_of (rev (trace w)) l"

section \<open>The driver\<close>

record stepper =
  chip :: string
  pins :: "nat list"
  gpioLines :: "line list"
  stepSequence :: "int list list"
  motorStepCounter :: int

record config =
  chipName :: "string option"
  pins_cfg :: "nat list option"
  stepSequence_cfg :: "int list list option"
  initialStepCounter :: "int option"
  consumerName :: "string option"

record move_config =
  stepCount :: "int option"
  direction :: "bool option"
  stepSleep :: "int option"

text \<open>A destructuring default \<^verbatim>\<open>{ x = d } = config\<close>: \<open>d\<close> where the field is absent.\<close>

definition default_to :: "'a \<Rightarrow> 'a option \<Rightarrow> 'a" where
  "default_to d x = (case x of None \<Rightarrow> d | Some v \<Rightarrow> v)"

definition default_stepSequence :: "int list list" where
  "default_stepSequence =
     [[1, 0, 0, 1],
      [1, 0, 0, 0],
      [1, 1, 0, 0],
      [0, 1, 0, 0],
      [0, 1, 1, 0],
      [0, 0, 1, 0],
      [0, 0, 1, 1],
      [0, 0, 0, 1]]"

subsection \<open>Construction\<close>

text \<open>\<^verbatim>\<open>this.pins.map((pin) => new Line(this.chip, pin))\<close>, stopping at the first throw.\<close>

fun new_Lines :: "string \<Rightarrow> nat list \<Rightarrow> gpio \<Rightarrow> js_error + line list" where
  "new_Lines c [] w = Inr []"
| "new_Lines c (pin # rest) w =
     (case new_Line c pin w of
        Inl e \<Rightarrow> Inl e
      | Inr l \<Rightarrow> (case new_Lines c rest w of Inl e \<Rightarrow> Inl e | Inr ls \<Rightarrow> Inr (l # ls)))"

fun request_each :: "line list \<Rightarrow> string \<Rightarrow> gpio \<Rightarrow> js_error option \<times> gpio" where
  "request_each [] consumer w = (None, w)"
| "request_each (l # ls) consumer w =
     (case requestOutputMode l 0 consumer w of
        (Some e, w') \<Rightarrow> (Some e, w')
      | (None, w') \<Rightarrow> request_each ls consumer w')"

definition setupPins :: "stepper \<Rightarrow> string \<Rightarrow> gpio \<Rightarrow> js_error option \<times> gpio" where
  "setupPins m consumer w = request_each (gpioLines m) consumer w"

text \<open>
  \<^verbatim>\<open>stepSequence || [...]\<close> takes the default table only when no sequence is given: every
  array, the empty one too, is truthy.
\<close>

definition constructor :: "config \<Rightarrow> gpio \<Rightarrow> (js_error + stepper) \<times> gpio" where
  "constructor cfg w =
     (case new_Chip (default_to ''gpiochip4'' (chipName cfg)) w of
        Inl e \<Rightarrow> (Inl e, w)
      | Inr c \<Rightarrow>
          (case new_Lines c (default_to [17, 18, 27, 22] (pins_cfg cfg)) w of
             Inl e \<Rightarrow> (Inl e, w)
           | Inr ls \<Rightarrow>
               (let m = \<lparr>chip = c,
                         pins = default_to [17, 18, 27, 22] (pins_cfg cfg),
                         gpioLines = ls,
                         stepSequence = default_to default_stepSequence (stepSequence_cfg cfg),
                         motorStepCounter = default_to 0 (initialStepCounter cfg)\<rparr>
                in case setupPins m (default_to ''stepper'' (consumerName cfg)) w of
                     (Some e, w') \<Rightarrow> (Inl e, w')
                   | (None, w') \<Rightarrow> (Inr m, w'))))"

subsection \<open>Cleanup\<close>

fun zero_each :: "line list \<Rightarrow> gpio \<Rightarrow> js_error option \<times> gpio" where
  "zero_each [] w = (None, w)"
| "zero_each (l # ls) w =
     (case setValue l (Num 0) w of
        (Some e, w') \<Rightarrow> (Some e, w')
      | (None, w') \<Rightarrow> zero_each ls w')"

definition cleanup :: "stepper \<Rightarrow> gpio \<Rightarrow> js_error option \<times> stepper \<times> gpio" where
  "cleanup m w = (case zero_each (gpioLines m) w of (r, w') \<Rightarrow> (r, m, w'))"

subsection \<open>Move\<close>

text \<open>
  The promise returned by \<^verbatim>\<open>move\<close> and \<^verbatim>\<open>delete\<close> ends resolved, rejected, or is left
  pending for ever because an exception left a timer callback uncaught. Neither
  \<^verbatim>\<open>async.eachSeries\<close>, \<^verbatim>\<open>async.waterfall\<close> nor \<^verbatim>\<open>async.each\<close> catches what a
  callback-style iteratee throws, so an exception unwinds to the frame that started the
  iteration: the promise executor (which turns it into a rejection) for whatever runs
  before the first \<^verbatim>\<open>setTimeout\<close>, the timer callback for everything after it.
\<close>

datatype 'a outcome = Resolved 'a | Rejected js_error | Uncaught js_error

datatype frame = Executor | TimerCallback

fun thrown :: "frame \<Rightarrow> js_error \<Rightarrow> 'a outcome" where
  "thrown Executor e = Rejected e"
| "thrown TimerCallback e = Uncaught e"

text \<open>JavaScript's \<^verbatim>\<open>%\<close>: the remainder takes the sign of the dividend.\<close>

definition js_rem :: "int \<Rightarrow> int \<Rightarrow> int" where
  "js_rem a b = sgn a * (\<bar>a\<bar> mod \<bar>b\<bar>)"

text \<open>
  \<^verbatim>\<open>this.stepSequence[this.motorStepCounter][pin]\<close>: indexing \<^verbatim>\<open>undefined\<close> (no such
  row) throws a TypeError, a column past the end of the row reads \<^verbatim>\<open>undefined\<close>.
\<close>

definition row_cell :: "int list list \<Rightarrow> int \<Rightarrow> nat \<Rightarrow> js_error + jsval" where
  "row_cell rows c pin =
     (if 0 \<le> c \<and> nat c < length rows
      then Inr (if pin < length (rows ! nat c) then Num (rows ! nat c ! pin) else Undefined)
      else Inl TypeError)"

text \<open>The first waterfall task: \<^verbatim>\<open>async.each\<close> over the indices of the lines.\<close>

fun each_pin :: "stepper \<Rightarrow> nat list \<Rightarrow> gpio \<Rightarrow> js_error option \<times> gpio" where
  "each_pin m [] w = (None, w)"
| "each_pin m (pin # rest) w =
     (case row_cell (stepSequence m) (motorStepCounter m) pin of
        Inl e \<Rightarrow> (Some e, w)
      | Inr v \<Rightarrow>
          (case setValue (gpioLines m ! pin) v w of
             (Some e, w') \<Rightarrow> (Some e, w')
           | (None, w') \<Rightarrow> each_pin m rest w'))"

text \<open>The second waterfall task, up to the \<^verbatim>\<open>setTimeout\<close>.\<close>

definition next_counter :: "bool \<Rightarrow> int \<Rightarrow> int" where
  "next_counter dir c = (if dir then js_rem (c - 1 + 8) 8 else js_rem (c + 1) 8)"

definition step :: "bool \<Rightarrow> stepper \<Rightarrow> gpio \<Rightarrow> js_error option \<times> stepper \<times> gpio" where
  "step dir m w =
     (case each_pin m [0..<length (gpioLines m)] w of
        (Some e, w') \<Rightarrow> (Some e, m, w')
      | (None, w') \<Rightarrow>
          (None, m\<lparr>motorStepCounter := next_counter dir (motorStepCounter m)\<rparr>, w'))"

text \<open>
  The completion callback of \<^verbatim>\<open>eachSeries\<close>:
  \<^verbatim>\<open>(err) => { this.cleanup(); if (err) reject(err); else resolve("Success"); }\<close>.
\<close>

definition move_done ::
  "frame \<Rightarrow> js_error option \<Rightarrow> stepper \<Rightarrow> gpio \<Rightarrow> string outcome \<times> stepper \<times> gpio" where
  "move_done fr err m w =
     (case cleanup m w of
        (Some e, m', w') \<Rightarrow> (thrown fr e, m', w')
      | (None, m', w') \<Rightarrow>
          (case err of
             Some e \<Rightarrow> (Rejected e, m', w')
           | None \<Rightarrow> (Resolved ''Success'', m', w')))"

text \<open>
  \<^verbatim>\<open>async.eachSeries\<close> over an array of \<open>n\<close> elements. The first iteration runs in the
  frame of the caller, each later one in the timer callback of the one before it. The
  iteratee never passes an error to its callback, so the completion callback is only ever
  called without one.
\<close>

fun eachSeries ::
  "nat \<Rightarrow> frame \<Rightarrow> bool \<Rightarrow> stepper \<Rightarrow> gpio \<Rightarrow> string outcome \<times> stepper \<times> gpio" where
  "eachSeries 0 fr dir m w = move_done fr None m w"
| "eachSeries (Suc n) fr dir m w =
     (case step dir m w of
        (Some e, m', w') \<Rightarrow> (thrown fr e, m', w')
      | (None, m', w') \<Rightarrow> eachSeries n TimerCallback dir m' w')"

text \<open>
  \<^verbatim>\<open>Array.from({ length: stepCount })\<close> has no element for a length below 1 and throws a
  RangeError for a length above \<open>2^32 - 1\<close>. The delay \<^verbatim>\<open>stepSleep\<close> decides when the
  next advance runs, not what it does, and has no part in the result.
\<close>

definition move :: "move_config \<Rightarrow> stepper \<Rightarrow> gpio \<Rightarrow> string outcome \<times> stepper \<times> gpio" where
  "move cfg m w =
     (let n = default_to 4096 (stepCount cfg);
          dir = default_to False (direction cfg)
      in if n > 4294967295 then (Rejected RangeError, m, w)
         else eachSeries (nat n) Executor dir m w)"

subsection \<open>Teardown\<close>

fun release_each :: "line list \<Rightarrow> gpio \<Rightarrow> js_error option \<times> gpio" where
  "release_each [] w = (None, w)"
| "release_each (l # ls) w =
     (case release l w of
        (Some e, w') \<Rightarrow> (Some e, w')
      | (None, w') \<Rightarrow> release_each ls w')"

definition delete :: "stepper \<Rightarrow> gpio \<Rightarrow> unit outcome \<times> stepper \<times> gpio" where
  "delete m w =
     (case release_each (gpioLines m) w of
        (Some e, w') \<Rightarrow> (Rejected e, m, w')
      | (None, w') \<Rightarrow> (Resolved (), m, w'))"

subsection \<open>A board to run the scenarios on\<close>

definition board :: "(nat \<Rightarrow> bool) \<Rightarrow> gpio" where
  "board faults =
     \<lparr>chips = [(''gpiochip4'', 54)],
      claim = (\<lambda>l. None),
      trace = [],
      attempts = 0,
      write_fails = faults,
      release_fails = (\<lambda>l. False)\<rparr>"

definition no_config :: config where
  "no_config =
     \<lparr>chipName = None, pins_cfg = None, stepSequence_cfg = None,
      initialStepCounter = None, consumerName = None\<rparr>"

definition default_motor :: stepper where
  "default_motor =
     \<lparr>chip = ''gpiochip4'',
      pins = [17, 18, 27, 22],
      gpioLines = [(''gpiochip4'', 17), (''gpiochip4'', 18), (''gpiochip4'', 27), (''gpiochip4'', 22)],
      stepSequence = default_stepSequence,
      motorStepCounter = 0\<rparr>"

definition ready_board :: gpio where
  "ready_board = snd (constructor no_config (board (\<lambda>n. False)))"

text \<open>
  What a test sees of a run: how the promise ended, the final step counter, the writes
  carried out, and the value each bound line was last driven to.
\<close>

definition observe ::
  "string outcome \<times> stepper \<times> gpio \<Rightarrow>
   string outcome \<times> int \<times> (line \<times> jsval) list \<times> jsval option list" where
  "observe res =
     (case res of (r, m, w) \<Rightarrow>
        (r, motorStepCounter m, trace w, map (last_written w) (gpioLines m)))"

text \<open>Construct a driver on a fresh board with the given write faults, then move once.\<close>

definition scenario ::
  "config \<Rightarrow> (nat \<Rightarrow> bool) \<Rightarrow> move_config \<Rightarrow>
   (string outcome \<times> int \<times> (line \<times> jsval) list \<times> jsval option list) option" where
  "scenario cfg faults mv =
     (case constructor cfg (board faults) of
        (Inl e, w) \<Rightarrow> None
      | (Inr m, w) \<Rightarrow> Some (observe (move mv m w)))"

subsection \<open>The index update as the specification words it\<close>

text \<open>
  Section 4.3, step 2, of the specification: forward is
  \<open>(currentIndex + 1) mod sequenceLength\<close>, backward is
  \<open>(currentIndex - 1 + sequenceLength) mod sequenceLength\<close>. This is not taken from
  the code; it is what \<open>next_counter\<close> is compared with.
\<close>

definition spec_next_index :: "int list list \<Rightarrow> bool \<Rightarrow> int \<Rightarrow> int" where
  "spec_next_index rows dir c =
     (if dir then (c - 1 + int (length rows)) mod int (length rows)
      else (c + 1) mod int (length rows))"

subsection \<open>Frames\<close>

text \<open>
  \<open>writes_only w w'\<close>: the provider state \<open>w'\<close> differs from \<open>w\<close> at most in the writes
  made. \<open>counter_only m m'\<close>: the driver \<open>m'\<close> differs from \<open>m\<close> at most in its step
  counter.
\<close>

definition writes_only :: "gpio \<Rightarrow> gpio \<Rightarrow> bool" where
  "writes_only w w' \<longleftrightarrow> w' = w\<lparr>trace := trace w', attempts := attempts w'\<rparr>"

definition counter_only :: "stepper \<Rightarrow> stepper \<Rightarrow> bool" where
  "counter_only m m' \<longleftrightarrow> m' = m\<lparr>motorStepCounter := motorStepCounter m'\<rparr>"

section \<open>Cleanup and the completion of a move\<close>

lemma zero_each_ok:
  "\<forall>k<length ls. \<not> write_fails w (attempts w + k) \<Longrightarrow>
   zero_each ls w =
     (None, w\<lparr>trace := trace w @ map (\<lambda>l. (l, Num 0)) ls, attempts := attempts w + length ls\<rparr>)"
proof (induction ls arbitrary: w)
  case Nil
  show ?case by simp
next
  case (Cons l ls)
  let ?w1 = "w\<lparr>trace := trace w @ [(l, Num 0)], attempts := Suc (attempts w)\<rparr>"
  from Cons.prems have now: "\<not> write_fails w (attempts w)" by force
  have later: "\<forall>k<length ls. \<not> write_fails ?w1 (attempts ?w1 + k)"
  proof (intro allI impI)
    fix k assume "k < length ls"
    then have "Suc k < length (l # ls)" by simp
    with Cons.prems have "\<not> write_fails w (attempts w + Suc k)" by blast
    then show "\<not> write_fails ?w1 (attempts ?w1 + k)" by simp
  qed
  have "zero_each (l # ls) w = zero_each ls ?w1"
    using now by (simp add: setValue_def)
  also have "\<dots> = (None, ?w1\<lparr>trace := trace ?w1 @ map (\<lambda>l. (l, Num 0)) ls,
                              attempts := attempts ?w1 + length ls\<rparr>)"
    by (rule Cons.IH [OF later])
  finally show ?case by simp
qed

lemma zero_each_trace:
  "\<exists>k\<le>length ls. trace (snd (zero_each ls w)) = trace w @ map (\<lambda>l. (l, Num 0)) (take k ls)"
proof (induction ls arbitrary: w)
  case Nil
  show ?case by simp
next
  case (Cons l ls)
  show ?case
  proof (cases "write_fails w (attempts w)")
    case True
    then have "trace (snd (zero_each (l # ls) w))
        = trace w @ map (\<lambda>l. (l, Num 0)) (take 0 (l # ls))"
      by (simp add: setValue_def)
    then show ?thesis by blast
  next
    case False
    let ?w1 = "w\<lparr>trace := trace w @ [(l, Num 0)], attempts := Suc (attempts w)\<rparr>"
    from Cons.IH [of ?w1] obtain k where k: "k \<le> length ls"
      and tr: "trace (snd (zero_each ls ?w1)) = trace ?w1 @ map (\<lambda>l. (l, Num 0)) (take k ls)"
      by blast
    have "zero_each (l # ls) w = zero_each ls ?w1"
      using False by (simp add: setValue_def)
    with tr have "trace (snd (zero_each (l # ls) w))
        = trace w @ map (\<lambda>l. (l, Num 0)) (take (Suc k) (l # ls))"
      by simp
    moreover from k have "Suc k \<le> length (l # ls)" by simp
    ultimately show ?thesis by blast
  qed
qed

lemma move_done_ok:
  "\<forall>k<length (gpioLines m). \<not> write_fails w (attempts w + k) \<Longrightarrow>
   move_done fr None m w =
     (Resolved ''Success'', m,
      w\<lparr>trace := trace w @ map (\<lambda>l. (l, Num 0)) (gpioLines m),
        attempts := attempts w + length (gpioLines m)\<rparr>)"
  by (simp add: move_done_def cleanup_def zero_each_ok)


section \<open>Frame lemmas\<close>

lemma writes_only_refl: "writes_only w w"
  by (simp add: writes_only_def)

lemma writes_only_trans: "writes_only w w1 \<Longrightarrow> writes_only w1 w2 \<Longrightarrow> writes_only w w2"
  unfolding writes_only_def
proof -
  assume a: "w1 = w\<lparr>trace := trace w1, attempts := attempts w1\<rparr>"
    and b: "w2 = w1\<lparr>trace := trace w2, attempts := attempts w2\<rparr>"
  have "w2 = (w\<lparr>trace := trace w1, attempts := attempts w1\<rparr>)\<lparr>trace := trace w2, attempts := attempts w2\<rparr>"
    using a b by simp
  then show "w2 = w\<lparr>trace := trace w2, attempts := attempts w2\<rparr>" by simp
qed

lemma setValue_writes_only: "writes_only w (snd (setValue l v w))"
  by (simp add: writes_only_def setValue_def)

lemma zero_each_writes_only: "writes_only w (snd (zero_each ls w))"
proof (induction ls arbitrary: w)
  case Nil
  show ?case by (simp add: writes_only_refl)
next
  case (Cons l ls)
  obtain r w1 where sv: "setValue l (Num 0) w = (r, w1)" by (cases "setValue l (Num 0) w")
  have w1: "writes_only w w1" using setValue_writes_only [of w l "Num 0"] sv by simp
  show ?case
  proof (cases r)
    case None
    have "writes_only w1 (snd (zero_each ls w1))" by (rule Cons.IH)
    with w1 have "writes_only w (snd (zero_each ls w1))" by (rule writes_only_trans)
    with sv None show ?thesis by simp
  next
    case (Some e)
    with sv w1 show ?thesis by simp
  qed
qed

lemma each_pin_writes_only: "writes_only w (snd (each_pin m ps w))"
proof (induction ps arbitrary: w)
  case Nil
  show ?case by (simp add: writes_only_refl)
next
  case (Cons p ps)
  show ?case
  proof (cases "row_cell (stepSequence m) (motorStepCounter m) p")
    case (Inl e)
    then show ?thesis by (simp add: writes_only_refl)
  next
    case (Inr v)
    obtain r w1 where sv: "setValue (gpioLines m ! p) v w = (r, w1)"
      by (cases "setValue (gpioLines m ! p) v w")
    have w1: "writes_only w w1" using setValue_writes_only [of w "gpioLines m ! p" v] sv by simp
    show ?thesis
    proof (cases r)
      case None
      have "writes_only w1 (snd (each_pin m ps w1))" by (rule Cons.IH)
      with w1 have "writes_only w (snd (each_pin m ps w1))" by (rule writes_only_trans)
      with sv None Inr show ?thesis by simp
    next
      case (Some e)
      with sv w1 Inr show ?thesis by simp
    qed
  qed
qed

lemma counter_only_trans: "counter_only m m1 \<Longrightarrow> counter_only m1 m2 \<Longrightarrow> counter_only m m2"
  unfolding counter_only_def
proof -
  assume a: "m1 = m\<lparr>motorStepCounter := motorStepCounter m1\<rparr>"
    and b: "m2 = m1\<lparr>motorStepCounter := motorStepCounter m2\<rparr>"
  have "m2 = (m\<lparr>motorStepCounter := motorStepCounter m1\<rparr>)\<lparr>motorStepCounter := motorStepCounter m2\<rparr>"
    using a b by simp
  then show "m2 = m\<lparr>motorStepCounter := motorStepCounter m2\<rparr>" by simp
qed

lemma cleanup_frame:
  "fst (snd (cleanup m w)) = m \<and> writes_only w (snd (snd (cleanup m w)))"
  using zero_each_writes_only [of w "gpioLines m"]
  by (cases "zero_each (gpioLines m) w") (simp add: cleanup_def)

lemma step_frame:
  "counter_only m (fst (snd (step dir m w))) \<and> writes_only w (snd (snd (step dir m w)))"
  using each_pin_writes_only [of w m "[0..<length (gpioLines m)]"]
  by (auto simp: step_def counter_only_def split: prod.splits option.splits)

lemma move_done_frame:
  "fst (snd (move_done fr err m w)) = m \<and> writes_only w (snd (snd (move_done fr err m w)))"
  using cleanup_frame [of m w]
  by (auto simp: move_done_def split: prod.splits option.splits)

lemma eachSeries_frame:
  "counter_only m (fst (snd (eachSeries n fr dir m w)))
   \<and> writes_only w (snd (snd (eachSeries n fr dir m w)))"
proof (induction n arbitrary: fr m w)
  case 0
  show ?case using move_done_frame [of fr None m w]
    by (simp add: counter_only_def)
next
  case (Suc n)
  obtain r m1 w1 where st: "step dir m w = (r, m1, w1)" by (cases "step dir m w")
  have f1: "counter_only m m1" "writes_only w w1" using step_frame [of m dir w] st by simp_all
  show ?case
  proof (cases r)
    case (Some e)
    with st f1 show ?thesis by simp
  next
    case None
    have "counter_only m1 (fst (snd (eachSeries n TimerCallback dir m1 w1)))"
      and "writes_only w1 (snd (snd (eachSeries n TimerCallback dir m1 w1)))"
      using Suc.IH [of m1 TimerCallback w1] by simp_all
    with f1 have "counter_only m (fst (snd (eachSeries n TimerCallback dir m1 w1)))"
      and "writes_only w (snd (snd (eachSeries n TimerCallback dir m1 w1)))"
      by (blast intro: counter_only_trans writes_only_trans)+
    with st None show ?thesis by simp
  qed
qed

lemma move_frame:
  "counter_only m (fst (snd (move cfg m w))) \<and> writes_only w (snd (snd (move cfg m w)))"
  using eachSeries_frame [of m "nat (default_to 4096 (stepCount cfg))" Executor
      "default_to False (direction cfg)" w]
  by (simp add: move_def Let_def counter_only_def writes_only_refl)


section \<open>Construction and teardown lemmas\<close>

lemma request_each_keeps:
  "claim w x = Some v \<Longrightarrow> claim (snd (request_each ls c w)) x = Some v"
proof (induction ls arbitrary: w)
  case Nil
  then show ?case by simp
next
  case (Cons l ls)
  show ?case
  proof (cases "claim w l")
    case (Some held)
    with Cons.prems show ?thesis by (simp add: requestOutputMode_def)
  next
    case None
    let ?w1 = "w\<lparr>claim := (claim w)(l \<mapsto> (c, 0))\<rparr>"
    from None Cons.prems have "x \<noteq> l" by auto
    with Cons.prems have "claim ?w1 x = Some v" by simp
    then have "claim (snd (request_each ls c ?w1)) x = Some v" by (rule Cons.IH)
    with None show ?thesis by (simp add: requestOutputMode_def)
  qed
qed

lemma request_each_claims:
  "request_each ls c w = (None, w') \<Longrightarrow>
   (\<forall>l\<in>set ls. claim w' l = Some (c, 0)) \<and> trace w' = trace w \<and> attempts w' = attempts w"
proof (induction ls arbitrary: w)
  case Nil
  then show ?case by simp
next
  case (Cons l ls)
  show ?case
  proof (cases "claim w l")
    case (Some held)
    with Cons.prems show ?thesis by (simp add: requestOutputMode_def)
  next
    case None
    let ?w1 = "w\<lparr>claim := (claim w)(l \<mapsto> (c, 0))\<rparr>"
    from None Cons.prems have rest: "request_each ls c ?w1 = (None, w')"
      by (simp add: requestOutputMode_def)
    from Cons.IH [OF rest]
    have ih: "\<forall>l\<in>set ls. claim w' l = Some (c, 0)" "trace w' = trace w" "attempts w' = attempts w"
      by simp_all
    have "claim ?w1 l = Some (c, 0)" by simp
    then have "claim (snd (request_each ls c ?w1)) l = Some (c, 0)" by (rule request_each_keeps)
    with rest have "claim w' l = Some (c, 0)" by simp
    with ih show ?thesis by simp
  qed
qed

lemma release_each_quiet:
  "trace (snd (release_each ls w)) = trace w \<and> attempts (snd (release_each ls w)) = attempts w
   \<and> release_fails (snd (release_each ls w)) = release_fails w
   \<and> write_fails (snd (release_each ls w)) = write_fails w"
proof (induction ls arbitrary: w)
  case Nil
  show ?case by simp
next
  case (Cons l ls)
  show ?case
  proof (cases "release_fails w l")
    case True
    then show ?thesis by (simp add: release_def)
  next
    case False
    then show ?thesis using Cons.IH [of "w\<lparr>claim := (claim w)(l := None)\<rparr>"]
      by (simp add: release_def)
  qed
qed

lemma release_each_stays_free:
  "claim w x = None \<Longrightarrow> claim (snd (release_each ls w)) x = None"
proof (induction ls arbitrary: w)
  case Nil
  then show ?case by simp
next
  case (Cons l ls)
  show ?case
  proof (cases "release_fails w l")
    case True
    with Cons.prems show ?thesis by (simp add: release_def)
  next
    case False
    from Cons.prems have "claim (w\<lparr>claim := (claim w)(l := None)\<rparr>) x = None" by simp
    then have "claim (snd (release_each ls (w\<lparr>claim := (claim w)(l := None)\<rparr>))) x = None"
      by (rule Cons.IH)
    with False show ?thesis by (simp add: release_def)
  qed
qed

lemma release_each_ok:
  "\<forall>l\<in>set ls. \<not> release_fails w l \<Longrightarrow>
   fst (release_each ls w) = None \<and> (\<forall>l\<in>set ls. claim (snd (release_each ls w)) l = None)"
proof (induction ls arbitrary: w)
  case Nil
  show ?case by simp
next
  case (Cons l ls)
  let ?w1 = "w\<lparr>claim := (claim w)(l := None)\<rparr>"
  from Cons.prems have ok: "\<not> release_fails w l" and rest: "\<forall>l\<in>set ls. \<not> release_fails ?w1 l"
    by simp_all
  have step: "release_each (l # ls) w = release_each ls ?w1"
    using ok by (simp add: release_def)
  have "claim ?w1 l = None" by simp
  then have "claim (snd (release_each ls ?w1)) l = None" by (rule release_each_stays_free)
  with Cons.IH [OF rest] step show ?case by simp
qed

lemma release_each_fails:
  "\<exists>l\<in>set ls. release_fails w l \<Longrightarrow>
   \<exists>l\<in>set ls. release_fails w l \<and> fst (release_each ls w) = Some (ReleaseError (snd l))"
proof (induction ls arbitrary: w)
  case Nil
  then show ?case by simp
next
  case (Cons l ls)
  show ?case
  proof (cases "release_fails w l")
    case True
    then show ?thesis by (simp add: release_def)
  next
    case False
    let ?w1 = "w\<lparr>claim := (claim w)(l := None)\<rparr>"
    from False Cons.prems have "\<exists>l\<in>set ls. release_fails ?w1 l" by simp
    from Cons.IH [OF this] obtain l' where "l' \<in> set ls" "release_fails w l'"
      "fst (release_each ls ?w1) = Some (ReleaseError (snd l'))" by auto
    with False show ?thesis by (auto simp: release_def)
  qed
qed

section \<open>The board used in the scenarios\<close>

lemma constructor_default:
  "constructor no_config (board (\<lambda>n. False)) = (Inr default_motor, ready_board)"
  by (simp add: ready_board_def default_motor_def constructor_def no_config_def board_def
      default_to_def new_Chip_def new_Line_def setupPins_def requestOutputMode_def)

lemma ready_board_fields:
  "write_fails ready_board = (\<lambda>n. False)"
  "release_fails ready_board = (\<lambda>l. False)"
  "attempts ready_board = 0"
  "trace ready_board = []"
  by (simp_all add: ready_board_def constructor_def no_config_def board_def
      default_to_def new_Chip_def new_Line_def setupPins_def requestOutputMode_def)

lemma default_motor_lines:
  "gpioLines default_motor =
     [(''gpiochip4'', 17), (''gpiochip4'', 18), (''gpiochip4'', 27), (''gpiochip4'', 22)]"
  by (simp add: default_motor_def)

section \<open>The step counter\<close>

text \<open>
  For a counter that is not negative, the update of \<^verbatim>\<open>move\<close> is the step modulo 8,
  whatever the number of rows of the step sequence is.
\<close>

lemma next_counter_forward: "0 \<le> c \<Longrightarrow> next_counter False c = (c + 1) mod 8"
  by (simp add: next_counter_def js_rem_def)

lemma next_counter_backward: "0 \<le> c \<Longrightarrow> next_counter True c = (c - 1) mod 8"
proof -
  assume "0 \<le> c"
  then have "js_rem (c - 1 + 8) 8 = (c - 1 + 8) mod 8" by (simp add: js_rem_def)
  also have "\<dots> = (c - 1) mod 8" by presburger
  finally show ?thesis by (simp add: next_counter_def)
qed

text \<open>So the code and the specification agree on every table of 8 rows.\<close>

lemma next_counter_on_8_rows:
  assumes "length rows = 8" and "0 \<le> c"
  shows "next_counter dir c = spec_next_index rows dir c"
proof (cases dir)
  case True
  have "(c - 1 + 8) mod 8 = (c - 1) mod 8" by presburger
  with True assms show ?thesis
    by (simp add: next_counter_backward spec_next_index_def)
next
  case False
  with assms show ?thesis
    by (simp add: next_counter_forward spec_next_index_def)
qed

section \<open>Claims\<close>

text \<open>
  C1. Claim: for every constructed driver, also one with a custom step sequence of any
  length, an advance takes the row index to \<open>(currentIndex + 1) mod sequenceLength\<close>
  (forward) or \<open>(currentIndex - 1 + sequenceLength) mod sequenceLength\<close> (backward).
  The code reduces modulo the constant 8, not modulo the length of the sequence. On a
  driver built with the 2-row sequence \<open>[[1,0],[0,1]]\<close>, two pins and initial index 1, one
  forward advance leaves the index at 2, where the claim requires \<open>(1 + 1) mod 2 = 0\<close>;
  the run observed is: resolved, index 2, row 1 written, then the zeroes of cleanup.
\<close>

theorem C1_custom_sequence_counter_mod_8:
  "scenario (no_config\<lparr>pins_cfg := Some [17, 18], stepSequence_cfg := Some [[1, 0], [0, 1]],
                      initialStepCounter := Some 1\<rparr>)
     (\<lambda>n. False) \<lparr>stepCount = Some 1, direction = Some False, stepSleep = None\<rparr>
   = Some (Resolved ''Success'', 2,
       [((''gpiochip4'', 17), Num 0), ((''gpiochip4'', 18), Num 1),
        ((''gpiochip4'', 17), Num 0), ((''gpiochip4'', 18), Num 0)],
       [Some (Num 0), Some (Num 0)])
   \<and> spec_next_index [[1, 0], [0, 1]] False 1 = 0"
proof
  show "scenario (no_config\<lparr>pins_cfg := Some [17, 18], stepSequence_cfg := Some [[1, 0], [0, 1]],
                      initialStepCounter := Some 1\<rparr>)
     (\<lambda>n. False) \<lparr>stepCount = Some 1, direction = Some False, stepSleep = None\<rparr>
   = Some (Resolved ''Success'', 2,
       [((''gpiochip4'', 17), Num 0), ((''gpiochip4'', 18), Num 1),
        ((''gpiochip4'', 17), Num 0), ((''gpiochip4'', 18), Num 0)],
       [Some (Num 0), Some (Num 0)])"
    by code_simp
  show "spec_next_index [[1, 0], [0, 1]] False 1 = 0"
    by (simp add: spec_next_index_def)
qed

text \<open>
  C2. Claim: on every exit path of \<^verbatim>\<open>move\<close>, a failed line write included, cleanup runs
  before the promise settles, so that every bound line was last written 0.
  In the code cleanup runs only in the completion callback of \<^verbatim>\<open>eachSeries\<close>, and an
  exception of \<^verbatim>\<open>setValue\<close> never reaches that callback. With the default driver, one
  requested advance and a failure of the second line write, the promise is rejected
  with the write error, the only write made is the 1 on the first line, and that line
  stays at 1.
\<close>

theorem C2_rejected_without_cleanup:
  "scenario no_config (\<lambda>n. n = 1)
     \<lparr>stepCount = Some 1, direction = Some False, stepSleep = None\<rparr>
   = Some (Rejected (LineWriteError 18), 0, [((''gpiochip4'', 17), Num 1)],
       [Some (Num 1), None, None, None])"
  by code_simp

text \<open>
  C3. Claim (Scenario B): with the 2-row sequence \<open>[[1,0],[0,1]]\<close> and two pins, three
  forward advances write the rows 0, 1, 0 and end at index 1.
  In the code the second advance takes the index to \<open>(1 + 1) mod 8 = 2\<close>; the third
  advance reads row 2, which does not exist, and the TypeError leaves the timer callback
  uncaught: rows 0 and 1 are written, the index stays 2, the lines stay at row 1 and the
  promise never settles.
\<close>

theorem C3_scenario_B_runs_off_the_table:
  "scenario (no_config\<lparr>pins_cfg := Some [17, 18], stepSequence_cfg := Some [[1, 0], [0, 1]]\<rparr>)
     (\<lambda>n. False) \<lparr>stepCount = Some 3, direction = Some False, stepSleep = None\<rparr>
   = Some (Uncaught TypeError, 2,
       [((''gpiochip4'', 17), Num 1), ((''gpiochip4'', 18), Num 0),
        ((''gpiochip4'', 17), Num 0), ((''gpiochip4'', 18), Num 1)],
       [Some (Num 0), Some (Num 1)])"
  by code_simp

text \<open>
  C4. Claim: a negative \<^verbatim>\<open>stepCount\<close> is rejected as a configuration error. The code
  has no check of its arguments: \<^verbatim>\<open>Array.from({ length: -1 })\<close> is the empty array, and
  the move resolves with "Success" after cleanup.
\<close>

theorem C4_negative_stepCount_resolves:
  "scenario no_config (\<lambda>n. False)
     \<lparr>stepCount = Some (- 1), direction = None, stepSleep = None\<rparr>
   = Some (Resolved ''Success'', 0,
       [((''gpiochip4'', 17), Num 0), ((''gpiochip4'', 18), Num 0),
        ((''gpiochip4'', 27), Num 0), ((''gpiochip4'', 22), Num 0)],
       [Some (Num 0), Some (Num 0), Some (Num 0), Some (Num 0)])"
  by code_simp

text \<open>
  C4, amended: a negative \<^verbatim>\<open>stepCount\<close> is not rejected; \<^verbatim>\<open>move\<close> does with it
  exactly what it does with \<^verbatim>\<open>stepCount = 0\<close>: no advance, then cleanup, and, when the
  writes of cleanup succeed, the promise resolves.
\<close>

theorem C4_negative_stepCount_as_zero:
  assumes "n < 0"
  shows "move \<lparr>stepCount = Some n, direction = d, stepSleep = s\<rparr> m w =
         move \<lparr>stepCount = Some 0, direction = d, stepSleep = s\<rparr> m w
       \<and> ((\<forall>k<length (gpioLines m). \<not> write_fails w (attempts w + k)) \<longrightarrow>
            fst (move \<lparr>stepCount = Some n, direction = d, stepSleep = s\<rparr> m w)
              = Resolved ''Success'')"
  using assms by (simp add: move_def default_to_def move_done_ok)

theorem C4_negative_stepCount_as_zero_witness:
  "(- 3 :: int) < 0
   \<and> move \<lparr>stepCount = Some (- 3), direction = None, stepSleep = None\<rparr> default_motor ready_board
     = move \<lparr>stepCount = Some 0, direction = None, stepSleep = None\<rparr> default_motor ready_board
   \<and> fst (move \<lparr>stepCount = Some (- 3), direction = None, stepSleep = None\<rparr>
            default_motor ready_board) = Resolved ''Success''"
proof -
  have neg: "(- 3 :: int) < 0" by simp
  have quiet: "\<forall>k<length (gpioLines default_motor).
      \<not> write_fails ready_board (attempts ready_board + k)"
    by (simp add: ready_board_fields)
  from C4_negative_stepCount_as_zero [OF neg, of None None default_motor ready_board] quiet neg
  show ?thesis by blast
qed

text \<open>
  C5. For every driver state, \<^verbatim>\<open>move\<close> with \<^verbatim>\<open>stepCount = 0\<close> makes no advance and
  goes straight to cleanup: the driver, its step counter included, is as before, and
  the only writes made are 0s on bound lines, in the order of the lines. When the
  provider carries out these writes, there is one per bound line and the promise
  resolves with "Success".
\<close>

theorem C5_move_zero_steps:
  "fst (snd (move \<lparr>stepCount = Some 0, direction = d, stepSleep = s\<rparr> m w)) = m
   \<and> (\<exists>k\<le>length (gpioLines m).
        trace (snd (snd (move \<lparr>stepCount = Some 0, direction = d, stepSleep = s\<rparr> m w)))
          = trace w @ map (\<lambda>l. (l, Num 0)) (take k (gpioLines m)))
   \<and> ((\<forall>k<length (gpioLines m). \<not> write_fails w (attempts w + k)) \<longrightarrow>
        move \<lparr>stepCount = Some 0, direction = d, stepSleep = s\<rparr> m w =
          (Resolved ''Success'', m,
           w\<lparr>trace := trace w @ map (\<lambda>l. (l, Num 0)) (gpioLines m),
             attempts := attempts w + length (gpioLines m)\<rparr>))"
proof -
  have mv: "move \<lparr>stepCount = Some 0, direction = d, stepSleep = s\<rparr> m w
      = move_done Executor None m w"
    by (simp add: move_def default_to_def)
  have same: "fst (snd (move_done Executor None m w)) = m"
    using move_done_frame [of Executor None m w] by simp
  obtain r w' where z: "zero_each (gpioLines m) w = (r, w')"
    by (cases "zero_each (gpioLines m) w")
  then have "snd (snd (move_done Executor None m w)) = w'"
    by (simp add: move_done_def cleanup_def split: option.splits)
  moreover have "\<exists>k\<le>length (gpioLines m).
      trace w' = trace w @ map (\<lambda>l. (l, Num 0)) (take k (gpioLines m))"
    using zero_each_trace [of "gpioLines m" w] z by simp
  ultimately have zeros: "\<exists>k\<le>length (gpioLines m).
      trace (snd (snd (move_done Executor None m w)))
        = trace w @ map (\<lambda>l. (l, Num 0)) (take k (gpioLines m))"
    by simp
  from same zeros show ?thesis
    unfolding mv by (simp add: move_done_ok)
qed

theorem C5_move_zero_steps_witness:
  "move \<lparr>stepCount = Some 0, direction = None, stepSleep = None\<rparr> default_motor ready_board =
     (Resolved ''Success'', default_motor,
      ready_board\<lparr>trace := [((''gpiochip4'', 17), Num 0), ((''gpiochip4'', 18), Num 0),
                           ((''gpiochip4'', 27), Num 0), ((''gpiochip4'', 22), Num 0)],
                  attempts := 4\<rparr>)"
proof -
  have quiet: "\<forall>k<length (gpioLines default_motor).
      \<not> write_fails ready_board (attempts ready_board + k)"
    by (simp add: ready_board_fields)
  from C5_move_zero_steps [of None None default_motor ready_board] quiet
  have "move \<lparr>stepCount = Some 0, direction = None, stepSleep = None\<rparr> default_motor ready_board =
      (Resolved ''Success'', default_motor,
       ready_board\<lparr>trace := trace ready_board @ map (\<lambda>l. (l, Num 0)) (gpioLines default_motor),
         attempts := attempts ready_board + length (gpioLines default_motor)\<rparr>)"
    by blast
  then show ?thesis by (simp add: ready_board_fields default_motor_lines)
qed

text \<open>
  C6. Claim (Scenario D): when a line write fails on the 5th of 10 requested advances,
  \<^verbatim>\<open>move\<close> rejects with that failure, cleanup still runs and all lines read 0, and the
  index reflects the 4 completed advances.
  In the code the 5th advance runs in a timer callback, and the exception of
  \<^verbatim>\<open>setValue\<close> leaves it uncaught: with the default driver and a failure of write 16
  (the first write of the 5th advance) the promise never settles, cleanup does not run,
  the lines stay at row 3 (\<open>[0,1,0,0]\<close>), and the index is 4.
\<close>

theorem C6_scenario_D_uncaught_without_cleanup:
  "scenario no_config (\<lambda>n. n = 16)
     \<lparr>stepCount = Some 10, direction = Some False, stepSleep = None\<rparr>
   = Some (Uncaught (LineWriteError 17), 4,
       [((''gpiochip4'', 17), Num 1), ((''gpiochip4'', 18), Num 0),
        ((''gpiochip4'', 27), Num 0), ((''gpiochip4'', 22), Num 1),
        ((''gpiochip4'', 17), Num 1), ((''gpiochip4'', 18), Num 0),
        ((''gpiochip4'', 27), Num 0), ((''gpiochip4'', 22), Num 0),
        ((''gpiochip4'', 17), Num 1), ((''gpiochip4'', 18), Num 1),
        ((''gpiochip4'', 27), Num 0), ((''gpiochip4'', 22), Num 0),
        ((''gpiochip4'', 17), Num 0), ((''gpiochip4'', 18), Num 1),
        ((''gpiochip4'', 27), Num 0), ((''gpiochip4'', 22), Num 0)],
       [Some (Num 0), Some (Num 1), Some (Num 0), Some (Num 0)])"
  by code_simp

text \<open>
  C7. Claim: construction with a step sequence whose rows are not as wide as the pin
  list fails with an InvalidConfigurationError. The constructor compares nothing: with
  the four default pins and the sequence \<open>[[1,0],[0,1]]\<close> of width 2 it returns a driver.
\<close>

theorem C7_width_mismatch_accepted:
  "fst (constructor (no_config\<lparr>stepSequence_cfg := Some [[1, 0], [0, 1]]\<rparr>) (board (\<lambda>n. False)))
   = Inr \<lparr>chip = ''gpiochip4'', pins = [17, 18, 27, 22],
          gpioLines = [(''gpiochip4'', 17), (''gpiochip4'', 18),
                       (''gpiochip4'', 27), (''gpiochip4'', 22)],
          stepSequence = [[1, 0], [0, 1]], motorStepCounter = 0\<rparr>"
  by (simp add: constructor_def no_config_def board_def default_to_def
      new_Chip_def new_Line_def setupPins_def requestOutputMode_def)

text \<open>
  C7, amended: construction does not check the step sequence against the pin list.
  Whether it succeeds, with which error it fails and what it does to the provider do not
  depend on the step sequence supplied, and on success the driver holds that sequence
  as it was given (the default table when none was).
\<close>

theorem C7_constructor_ignores_width:
  "constructor (cfg\<lparr>stepSequence_cfg := s\<rparr>) w =
     (case constructor cfg w of
        (Inl e, w') \<Rightarrow> (Inl e, w')
      | (Inr m, w') \<Rightarrow> (Inr (m\<lparr>stepSequence := default_to default_stepSequence s\<rparr>), w'))"
  by (simp add: constructor_def setupPins_def Let_def split: sum.splits prod.splits option.splits)


text \<open>
  C8. After a successful construction every bound line is held in output mode (under
  the consumer label, requested with initial value 0), construction has made no
  \<^verbatim>\<open>setValue\<close> call, and the step counter is the initial value supplied, 0 when none
  was.
\<close>

theorem C8_construction_postcondition:
  assumes "constructor cfg w = (Inr m, w')"
  shows "(\<forall>l\<in>set (gpioLines m). claim w' l = Some (default_to ''stepper'' (consumerName cfg), 0))
       \<and> trace w' = trace w \<and> attempts w' = attempts w
       \<and> motorStepCounter m = default_to 0 (initialStepCounter cfg)"
proof -
  let ?c = "default_to ''stepper'' (consumerName cfg)"
  from assms have req: "request_each (gpioLines m) ?c w = (None, w')"
    and ctr: "motorStepCounter m = default_to 0 (initialStepCounter cfg)"
    by (auto simp: constructor_def setupPins_def Let_def split: sum.splits prod.splits option.splits)
  from request_each_claims [OF req] ctr show ?thesis by simp
qed


theorem C8_construction_postcondition_witness:
  "constructor no_config (board (\<lambda>n. False)) = (Inr default_motor, ready_board)
   \<and> map (claim ready_board) (gpioLines default_motor) = replicate 4 (Some (''stepper'', 0))
   \<and> trace ready_board = []
   \<and> motorStepCounter default_motor = 0"
proof -
  have built: "constructor no_config (board (\<lambda>n. False)) = (Inr default_motor, ready_board)"
    by (rule constructor_default)
  from C8_construction_postcondition [OF built]
  have "\<forall>l\<in>set (gpioLines default_motor). claim ready_board l = Some (''stepper'', 0)"
    and "trace ready_board = trace (board (\<lambda>n. False))"
    and "motorStepCounter default_motor = 0"
    by (simp_all add: no_config_def default_to_def)
  then show ?thesis using built by (simp add: board_def default_motor_lines numeral_eq_Suc)
qed

text \<open>
  C9. \<^verbatim>\<open>delete\<close> makes no \<^verbatim>\<open>setValue\<close> call (it does not run cleanup). When no release
  fails, the promise resolves and no bound line is held any more. When a release fails,
  the promise is rejected with the error of a bound line whose release fails.
\<close>

theorem C9_delete_releases_and_reports:
  "trace (snd (snd (delete m w))) = trace w
   \<and> attempts (snd (snd (delete m w))) = attempts w
   \<and> ((\<forall>l\<in>set (gpioLines m). \<not> release_fails w l) \<longrightarrow>
        fst (delete m w) = Resolved ()
        \<and> (\<forall>l\<in>set (gpioLines m). claim (snd (snd (delete m w))) l = None))
   \<and> ((\<exists>l\<in>set (gpioLines m). release_fails w l) \<longrightarrow>
        (\<exists>l\<in>set (gpioLines m). release_fails w l
            \<and> fst (delete m w) = Rejected (ReleaseError (snd l))))"
proof -
  obtain r w' where re: "release_each (gpioLines m) w = (r, w')"
    by (cases "release_each (gpioLines m) w")
  have del: "delete m w = (case r of Some e \<Rightarrow> Rejected e | None \<Rightarrow> Resolved (), m, w')"
    using re by (simp add: delete_def split: option.splits)
  have quiet: "trace w' = trace w" "attempts w' = attempts w"
    using release_each_quiet [of "gpioLines m" w] re by simp_all
  have ok: "(\<forall>l\<in>set (gpioLines m). \<not> release_fails w l) \<longrightarrow>
      r = None \<and> (\<forall>l\<in>set (gpioLines m). claim w' l = None)"
    using release_each_ok [of "gpioLines m" w] re by simp
  have bad: "(\<exists>l\<in>set (gpioLines m). release_fails w l) \<longrightarrow>
      (\<exists>l\<in>set (gpioLines m). release_fails w l \<and> r = Some (ReleaseError (snd l)))"
    using release_each_fails [of "gpioLines m" w] re by simp
  from quiet ok bad show ?thesis unfolding del by auto
qed


theorem C9_delete_releases_and_reports_witness:
  "fst (delete default_motor ready_board) = Resolved ()
   \<and> map (claim (snd (snd (delete default_motor ready_board)))) (gpioLines default_motor)
       = [None, None, None, None]
   \<and> trace (snd (snd (delete default_motor ready_board))) = []
   \<and> fst (delete default_motor (ready_board\<lparr>release_fails := (\<lambda>l. l = (''gpiochip4'', 27))\<rparr>))
       = Rejected (ReleaseError 27)"
proof -
  let ?bad = "ready_board\<lparr>release_fails := (\<lambda>l. l = (''gpiochip4'', 27))\<rparr>"
  have good: "fst (delete default_motor ready_board) = Resolved ()
      \<and> (\<forall>l\<in>set (gpioLines default_motor). claim (snd (snd (delete default_motor ready_board))) l = None)
      \<and> trace (snd (snd (delete default_motor ready_board))) = []"
    using C9_delete_releases_and_reports [of default_motor ready_board]
    by (simp add: ready_board_fields)
  have "\<exists>l\<in>set (gpioLines default_motor). release_fails ?bad l
          \<and> fst (delete default_motor ?bad) = Rejected (ReleaseError (snd l))"
    using C9_delete_releases_and_reports [of default_motor ?bad]
    by (simp add: default_motor_lines)
  then have "fst (delete default_motor ?bad) = Rejected (ReleaseError 27)"
    by auto
  with good show ?thesis by (simp add: default_motor_lines)
qed

text \<open>
  C10. \<^verbatim>\<open>move\<close> leaves the chip, the pin list, the line handles and the step sequence
  of the driver as they were, and in the provider it changes nothing but the writes made:
  which chips exist and which lines are held stay the same. \<^verbatim>\<open>cleanup\<close> leaves the whole
  driver, the step counter included, as it was, and the same holds of the provider.
\<close>

theorem C10_move_and_cleanup_frame:
  "chip (fst (snd (move cfg m w))) = chip m
   \<and> pins (fst (snd (move cfg m w))) = pins m
   \<and> gpioLines (fst (snd (move cfg m w))) = gpioLines m
   \<and> stepSequence (fst (snd (move cfg m w))) = stepSequence m
   \<and> chips (snd (snd (move cfg m w))) = chips w
   \<and> claim (snd (snd (move cfg m w))) = claim w
   \<and> fst (snd (cleanup m w)) = m
   \<and> chips (snd (snd (cleanup m w))) = chips w
   \<and> claim (snd (snd (cleanup m w))) = claim w"
proof -
  let ?m' = "fst (snd (move cfg m w))" and ?w' = "snd (snd (move cfg m w))"
  let ?w'' = "snd (snd (cleanup m w))"
  have m: "?m' = m\<lparr>motorStepCounter := motorStepCounter ?m'\<rparr>"
    and w: "?w' = w\<lparr>trace := trace ?w', attempts := attempts ?w'\<rparr>"
    using move_frame [of m cfg w] by (simp_all add: counter_only_def writes_only_def)
  have c: "fst (snd (cleanup m w)) = m"
    and w2: "?w'' = w\<lparr>trace := trace ?w'', attempts := attempts ?w''\<rparr>"
    using cleanup_frame [of m w] by (simp_all add: writes_only_def)
  have "chip ?m' = chip (m\<lparr>motorStepCounter := motorStepCounter ?m'\<rparr>)" using m by simp
  then have 1: "chip ?m' = chip m" by simp
  have "pins ?m' = pins (m\<lparr>motorStepCounter := motorStepCounter ?m'\<rparr>)" using m by simp
  then have 2: "pins ?m' = pins m" by simp
  have "gpioLines ?m' = gpioLines (m\<lparr>motorStepCounter := motorStepCounter ?m'\<rparr>)" using m by simp
  then have 3: "gpioLines ?m' = gpioLines m" by simp
  have "stepSequence ?m' = stepSequence (m\<lparr>motorStepCounter := motorStepCounter ?m'\<rparr>)" using m by simp
  then have 4: "stepSequence ?m' = stepSequence m" by simp
  have "chips ?w' = chips (w\<lparr>trace := trace ?w', attempts := attempts ?w'\<rparr>)" using w by simp
  then have 5: "chips ?w' = chips w" by simp
  have "claim ?w' = claim (w\<lparr>trace := trace ?w', attempts := attempts ?w'\<rparr>)" using w by simp
  then have 6: "claim ?w' = claim w" by simp
  have "chips ?w'' = chips (w\<lparr>trace := trace ?w'', attempts := attempts ?w''\<rparr>)" using w2 by simp
  then have 7: "chips ?w'' = chips w" by simp
  have "claim ?w'' = claim (w\<lparr>trace := trace ?w'', attempts := attempts ?w''\<rparr>)" using w2 by simp
  then have 8: "claim ?w'' = claim w" by simp
  from 1 2 3 4 5 6 c 7 8 show ?thesis by blast
qed


end
